theory Spec2Isabelle
  imports Main
begin

section \<open>The retry package: data model\<close>

text \<open>
  The Go package has two functions, \<^verbatim>\<open>Try\<close> and \<^verbatim>\<open>Retry\<close>, and one
  unexported struct, \<^verbatim>\<open>recovered\<close>. Everything they do beyond returning a value is made
  explicit here:
  \<^item> a Go call either returns or panics: the type \<open>result\<close>;
  \<^item> the operation \<^verbatim>\<open>f\<close> and the handler \<^verbatim>\<open>onError\<close> are closures over the
    caller's variables (the tests count in a shared variable and cancel a context), so
    they are functions on a caller state \<open>'s\<close> that they may read and change, also when
    they panic;
  \<^item> the calls that \<^verbatim>\<open>Retry\<close> makes (\<^verbatim>\<open>Try(f)\<close>, \<^verbatim>\<open>onError(err)\<close>,
    \<^verbatim>\<open>time.Sleep(p)\<close>) are recorded, in order, in a list of events;
  \<^item> the loop of \<^verbatim>\<open>Retry\<close> may run forever, so it is a partial function into
    \<open>option\<close>: \<open>None\<close> is the run that never returns.
  An operation or handler is taken to come back, by a return or by a panic; one that
  hangs or ends the process is outside the model.
\<close>

subsection \<open>Values of type \<^verbatim>\<open>interface{}\<close>, errors, results of calls\<close>

text \<open>
  A panic payload is an \<^verbatim>\<open>interface{}\<close>: the nil interface or some value. The value
  \<open>PanicNilError\<close> stands for the \<^verbatim>\<open>*runtime.PanicNilError\<close> that the Go runtime
  substitutes for a nil payload since Go 1.21.
\<close>

datatype 'v iface = nil | PanicNilError | Val 'v

text \<open>\<^verbatim>\<open>type recovered struct { e interface{} }\<close>\<close>

record 'v recovered =
  e :: "'v iface"

text \<open>
  A non-nil \<^verbatim>\<open>error\<close> is either the pointer to a \<^verbatim>\<open>recovered\<close> made by
  \<^verbatim>\<open>Try\<close> or any other error value of the caller. The nil error is \<open>None\<close> of
  \<open>error option\<close>.
\<close>

datatype ('x, 'v) error = Other 'x | Recovered "'v recovered"

datatype ('a, 'v) result = Returns 'a | Panics "'v iface"

type_synonym ('s, 'x, 'v) operation = "'s \<Rightarrow> (('x, 'v) error option, 'v) result \<times> 's"

type_synonym ('s, 'x, 'v) handler = "('x, 'v) error \<Rightarrow> 's \<Rightarrow> (unit, 'v) result \<times> 's"

text \<open>\<^verbatim>\<open>time.Duration\<close> counts nanoseconds; only \<^verbatim>\<open>period[0] > 0\<close> is computed on it.\<close>

type_synonym duration = int

definition Second :: duration where
  "Second = 1000000000"

datatype ('x, 'v) event =
    Attempt "('x, 'v) error option"
  | OnError "('x, 'v) error"
  | Sleep duration

subsection \<open>The methods of \<^verbatim>\<open>recovered\<close>\<close>

definition Error :: "'v recovered \<Rightarrow> string" where
  "Error r = ''RECOVERED, UNKNOWN ERROR; CALL CausedBy() interface{}''"

definition CausedBy :: "'v recovered \<Rightarrow> 'v iface" where
  "CausedBy r = e r"

section \<open>\<^verbatim>\<open>Try\<close>\<close>

text \<open>
  The frame of \<^verbatim>\<open>Try\<close> holds the named result \<^verbatim>\<open>errRun\<close> and, while the goroutine
  is panicking, the value it panics with. With \<open>panicnil\<close> (the runtime before Go 1.21,
  or \<^verbatim>\<open>GODEBUG=panicnil=1\<close>) a \<^verbatim>\<open>panic(nil)\<close> panics with nil; without it the
  runtime panics with a \<^verbatim>\<open>*runtime.PanicNilError\<close> instead.
\<close>

record ('x, 'v) frame =
  errRun :: "('x, 'v) error option"
  panicking :: "'v iface option"

definition panic_value :: "bool \<Rightarrow> 'v iface \<Rightarrow> 'v iface" where
  "panic_value panicnil v = (if v = nil \<and> \<not> panicnil then PanicNilError else v)"

text \<open>
  \<^verbatim>\<open>return f()\<close>: when \<^verbatim>\<open>f\<close> returns, its value is stored in \<^verbatim>\<open>errRun\<close>; when it
  panics, \<^verbatim>\<open>errRun\<close> keeps its zero value nil and the frame unwinds.
\<close>

definition body :: "bool \<Rightarrow> (('x, 'v) error option, 'v) result \<Rightarrow> ('x, 'v) frame" where
  "body panicnil r =
     (case r of
        Returns x \<Rightarrow> \<lparr>errRun = x, panicking = None\<rparr>
      | Panics v \<Rightarrow> \<lparr>errRun = None, panicking = Some (panic_value panicnil v)\<rparr>)"

text \<open>
  \<^verbatim>\<open>recover()\<close>, called by the deferred function: nil when the goroutine is not
  panicking; otherwise the value of the panic, and the panic is over.
\<close>

definition recover :: "('x, 'v) frame \<Rightarrow> 'v iface \<times> ('x, 'v) frame" where
  "recover fr =
     (case panicking fr of
        None \<Rightarrow> (nil, fr)
      | Some v \<Rightarrow> (v, fr\<lparr>panicking := None\<rparr>))"

text \<open>\<^verbatim>\<open>defer func() { if e := recover(); e != nil { errRun = &recovered{e: e} } }()\<close>\<close>

definition deferred :: "('x, 'v) frame \<Rightarrow> ('x, 'v) frame" where
  "deferred fr =
     (case recover fr of
        (v, fr') \<Rightarrow> if v \<noteq> nil then fr'\<lparr>errRun := Some (Recovered \<lparr>e = v\<rparr>)\<rparr> else fr')"

text \<open>Leaving the frame: a panic that nobody recovered goes on to the caller.\<close>

definition leave :: "('x, 'v) frame \<Rightarrow> (('x, 'v) error option, 'v) result" where
  "leave fr = (case panicking fr of None \<Rightarrow> Returns (errRun fr) | Some v \<Rightarrow> Panics v)"

definition Try ::
  "bool \<Rightarrow> ('s, 'x, 'v) operation \<Rightarrow> 's \<Rightarrow> (('x, 'v) error option, 'v) result \<times> 's" where
  "Try panicnil f s = (case f s of (r, s') \<Rightarrow> (leave (deferred (body panicnil r)), s'))"

section \<open>\<^verbatim>\<open>Retry\<close>\<close>

text \<open>
  \<^verbatim>\<open>p := time.Second * 5; if len(period) > 0 && period[0] > 0 { p = period[0] }\<close>
\<close>

definition sleep_period :: "duration list \<Rightarrow> duration" where
  "sleep_period period =
     (if length period > 0 \<and> period ! 0 > 0 then period ! 0 else Second * 5)"

text \<open>\<^verbatim>\<open>if onError != nil { onError(err) }\<close>, with the event it leaves.\<close>

definition call_onError ::
  "('s, 'x, 'v) handler option \<Rightarrow> ('x, 'v) error \<Rightarrow> 's \<Rightarrow>
     (unit, 'v) result \<times> 's \<times> ('x, 'v) event list" where
  "call_onError onError err s =
     (case onError of
        None \<Rightarrow> (Returns (), s, [])
      | Some h \<Rightarrow> (case h err s of (r, s') \<Rightarrow> (r, s', [OnError err])))"

text \<open>
  One iteration of the loop, entered with \<^verbatim>\<open>numberOfRetries != 0\<close>. \<open>Inl\<close> is the
  state the loop goes on with, \<open>Inr\<close> is the end of \<^verbatim>\<open>Retry\<close>: by \<^verbatim>\<open>break\<close>, or by a
  panic that unwinds through \<^verbatim>\<open>Retry\<close>, which recovers nothing itself. In the result
  of \<^verbatim>\<open>f\<close> and of \<^verbatim>\<open>onError\<close>, \<open>Panics v\<close> is the call \<^verbatim>\<open>panic(v)\<close>; in the result
  of \<^verbatim>\<open>Try\<close> and of \<^verbatim>\<open>Retry\<close> it carries the value the goroutine panics with, which
  for a handler's \<^verbatim>\<open>panic(nil)\<close> is again the runtime's substitute. Go's \<^verbatim>\<open>int\<close>
  is an \<open>int\<close> here: the only arithmetic is the decrement of a positive number, which
  cannot wrap around.
\<close>

definition iteration ::
  "bool \<Rightarrow> ('s, 'x, 'v) operation \<Rightarrow> ('s, 'x, 'v) handler option \<Rightarrow> duration \<Rightarrow>
     int \<Rightarrow> 's \<Rightarrow> ('x, 'v) event list \<Rightarrow>
     (int \<times> 's \<times> ('x, 'v) event list) + ((unit, 'v) result \<times> 's \<times> ('x, 'v) event list)" where
  "iteration panicnil f onError p numberOfRetries s tr =
     (let n = (if numberOfRetries > 0 then numberOfRetries - 1 else numberOfRetries) in
      case Try panicnil f s of
        (Panics v, s1) \<Rightarrow> Inr (Panics v, s1, tr)
      | (Returns None, s1) \<Rightarrow> Inr (Returns (), s1, tr @ [Attempt None])
      | (Returns (Some err), s1) \<Rightarrow>
          (case call_onError onError err s1 of
             (Panics v, s2, evs) \<Rightarrow>
               Inr (Panics (panic_value panicnil v), s2, tr @ Attempt (Some err) # evs)
           | (Returns _, s2, evs) \<Rightarrow>
               Inl (n, s2, tr @ Attempt (Some err) # evs @ (if n \<noteq> 0 then [Sleep p] else []))))"

text \<open>\<^verbatim>\<open>for numberOfRetries != 0 { ... }\<close>\<close>

partial_function (option) loop ::
  "bool \<Rightarrow> ('s, 'x, 'v) operation \<Rightarrow> ('s, 'x, 'v) handler option \<Rightarrow> duration \<Rightarrow>
     int \<Rightarrow> 's \<Rightarrow> ('x, 'v) event list \<Rightarrow>
     ((unit, 'v) result \<times> 's \<times> ('x, 'v) event list) option" where
  "loop panicnil f onError p numberOfRetries s tr =
     (if numberOfRetries \<noteq> 0 then
        (case iteration panicnil f onError p numberOfRetries s tr of
           Inl (n, s', tr') \<Rightarrow> loop panicnil f onError p n s' tr'
         | Inr fin \<Rightarrow> Some fin)
      else Some (Returns (), s, tr))"

declare loop.simps [code]

definition Retry ::
  "bool \<Rightarrow> ('s, 'x, 'v) operation \<Rightarrow> int \<Rightarrow> ('s, 'x, 'v) handler option \<Rightarrow> duration list \<Rightarrow>
     's \<Rightarrow> ((unit, 'v) result \<times> 's \<times> ('x, 'v) event list) option" where
  "Retry panicnil f numberOfRetries onError period s =
     loop panicnil f onError (sleep_period period) numberOfRetries s []"

section \<open>What a run leaves behind\<close>

text \<open>
  The results of the calls \<^verbatim>\<open>Try(f)\<close> of a run, the failures among them, the
  arguments of the calls of \<^verbatim>\<open>onError\<close>, and the arguments of the calls of
  \<^verbatim>\<open>time.Sleep\<close>, each in the order of the run.
\<close>

fun attempts :: "('x, 'v) event list \<Rightarrow> ('x, 'v) error option list" where
  "attempts [] = []"
| "attempts (Attempt r # evs) = r # attempts evs"
| "attempts (_ # evs) = attempts evs"

fun failures :: "('x, 'v) event list \<Rightarrow> ('x, 'v) error list" where
  "failures [] = []"
| "failures (Attempt (Some err) # evs) = err # failures evs"
| "failures (_ # evs) = failures evs"

fun reports :: "('x, 'v) event list \<Rightarrow> ('x, 'v) error list" where
  "reports [] = []"
| "reports (OnError err # evs) = err # reports evs"
| "reports (_ # evs) = reports evs"

fun sleeps :: "('x, 'v) event list \<Rightarrow> duration list" where
  "sleeps [] = []"
| "sleeps (Sleep d # evs) = d # sleeps evs"
| "sleeps (_ # evs) = sleeps evs"

text \<open>
  The operation fails when called in state \<open>s\<close>: \<^verbatim>\<open>Try(f)\<close> comes back with a non-nil
  error, whether \<^verbatim>\<open>f\<close> returned it or \<^verbatim>\<open>Try\<close> made it from a panic.
\<close>

definition fails :: "bool \<Rightarrow> ('s, 'x, 'v) operation \<Rightarrow> 's \<Rightarrow> bool" where
  "fails panicnil f s =
     (case fst (Try panicnil f s) of Returns (Some err) \<Rightarrow> True | _ \<Rightarrow> False)"

definition always_fails :: "bool \<Rightarrow> ('s, 'x, 'v) operation \<Rightarrow> bool" where
  "always_fails panicnil f = (\<forall>s. fails panicnil f s)"

text \<open>
  The handler, when there is one, returns from every call. The package expects this of
  its caller: \<^verbatim>\<open>Retry\<close> recovers nothing, so a panic of \<^verbatim>\<open>onError\<close> unwinds
  through it.
\<close>

definition never_panics :: "('s, 'x, 'v) handler option \<Rightarrow> bool" where
  "never_panics onError = (\<forall>h err s v. onError = Some h \<longrightarrow> fst (h err s) \<noteq> Panics v)"

text \<open>
  The operation returns a failure when called in state \<open>s\<close>, in the ordinary way:
  \<^verbatim>\<open>f\<close> itself comes back with a non-nil error.
\<close>

definition returns_failure :: "('s, 'x, 'v) operation \<Rightarrow> 's \<Rightarrow> bool" where
  "returns_failure f s = (case fst (f s) of Returns (Some err) \<Rightarrow> True | _ \<Rightarrow> False)"

definition always_returns_failure :: "('s, 'x, 'v) operation \<Rightarrow> bool" where
  "always_returns_failure f = (\<forall>s. returns_failure f s)"

text \<open>
  The run that the description of an always failing operation asks for, written from
  that description and not from the code: \<open>k\<close> rounds, each one call of \<^verbatim>\<open>f\<close> in the
  state the round before left, then one call of the handler, when there is one, with
  the failure that this call of \<^verbatim>\<open>f\<close> returned, then a sleep when another round
  follows. The result is the caller state after the last round and the events in order.
\<close>

fun failing_run ::
  "nat \<Rightarrow> ('s, 'x, 'v) operation \<Rightarrow> ('s, 'x, 'v) handler option \<Rightarrow> duration \<Rightarrow> 's \<Rightarrow>
     's \<times> ('x, 'v) event list" where
  "failing_run 0 f onError p s = (s, [])"
| "failing_run (Suc k) f onError p s =
     (case f s of
        (Returns (Some err), s1) \<Rightarrow>
          (let s2 = (case onError of None \<Rightarrow> s1 | Some h \<Rightarrow> snd (h err s1));
               (s', tr) = failing_run k f onError p s2
           in (s', Attempt (Some err) #
                   (case onError of None \<Rightarrow> [] | Some h \<Rightarrow> [OnError err]) @
                   (if k \<noteq> 0 then [Sleep p] else []) @ tr))
      | (_, s1) \<Rightarrow> (s1, []))"

section \<open>The operations and handlers of the package's tests\<close>

text \<open>
  The tests count calls in a variable \<^verbatim>\<open>sum\<close>: the caller state is that counter,
  \<open>cnt\<close> here.
  \<^verbatim>\<open>func() error { atomic.AddInt64(&sum, 1); return errors.Errorf("DUMMY") }\<close>
\<close>

definition returns_DUMMY :: "(nat, string, string) operation" where
  "returns_DUMMY cnt = (Returns (Some (Other ''DUMMY'')), cnt + 1)"

text \<open>\<^verbatim>\<open>func() error { atomic.AddInt64(&sum, 1); return nil }\<close>\<close>

definition returns_nil :: "(nat, string, string) operation" where
  "returns_nil cnt = (Returns None, cnt + 1)"

text \<open>\<^verbatim>\<open>func() error { atomic.AddInt64(&sum, 1); panic("X") }\<close>\<close>

definition panics_X :: "(nat, string, string) operation" where
  "panics_X cnt = (Panics (Val ''X''), cnt + 1)"

text \<open>The same with \<^verbatim>\<open>panic(nil)\<close>.\<close>

definition panics_nil :: "(nat, string, string) operation" where
  "panics_nil cnt = (Panics nil, cnt + 1)"

text \<open>\<^verbatim>\<open>func(error) { atomic.AddInt64(&sum, 1) }\<close>\<close>

definition count_error :: "(nat, string, string) handler" where
  "count_error err cnt = (Returns (), cnt + 1)"

text \<open>A handler that panics itself: \<^verbatim>\<open>func(err error) { panic("H") }\<close>\<close>

definition panics_H :: "(nat, string, string) handler" where
  "panics_H err cnt = (Panics (Val ''H''), cnt)"

text \<open>
  \<^verbatim>\<open>TestOnError3\<close>: the operation returns nil once the context is cancelled, and
  counts and panics before; the handler cancels the context. The caller state is the pair
  of the context's flag and the counter.
\<close>

definition until_cancelled :: "(bool \<times> nat, string, string) operation" where
  "until_cancelled st =
     (case st of (done, cnt) \<Rightarrow>
        if done then (Returns None, (done, cnt)) else (Panics (Val ''X''), (done, cnt + 1)))"

definition cancel :: "(bool \<times> nat, string, string) handler" where
  "cancel err st = (case st of (done, cnt) \<Rightarrow> (Returns (), (True, cnt)))"

section \<open>Lemmas on \<^verbatim>\<open>Try\<close> and on one iteration\<close>

lemma attempts_append: "attempts (xs @ ys) = attempts xs @ attempts ys"
  by (induction xs rule: attempts.induct) simp_all

lemma failures_append: "failures (xs @ ys) = failures xs @ failures ys"
  by (induction xs rule: failures.induct) simp_all

lemma reports_append: "reports (xs @ ys) = reports xs @ reports ys"
  by (induction xs rule: reports.induct) simp_all

lemma sleeps_append: "sleeps (xs @ ys) = sleeps xs @ sleeps ys"
  by (induction xs rule: sleeps.induct) simp_all

lemma Try_Returns: "f s = (Returns x, s') \<Longrightarrow> Try panicnil f s = (Returns x, s')"
  by (simp add: Try_def body_def deferred_def recover_def leave_def)

lemma Try_Panics:
  "f s = (Panics v, s') \<Longrightarrow>
   Try panicnil f s =
     (Returns (if panic_value panicnil v \<noteq> nil
               then Some (Recovered \<lparr>e = panic_value panicnil v\<rparr>) else None), s')"
  by (simp add: Try_def body_def deferred_def recover_def leave_def)

lemma Try_cases:
  obtains x where "Try panicnil f s = (Returns x, snd (f s))"
proof (cases "f s")
  case (Pair r s')
  then show ?thesis
    using that Try_Returns [of f s _ s' panicnil] Try_Panics [of f s _ s' panicnil]
    by (cases r) auto
qed

lemma call_onError_cases:
  obtains (absent) "onError = None" "call_onError onError err s = (Returns (), s, [])"
  | (called) h r s' where "onError = Some h" "h err s = (r, s')"
      "call_onError onError err s = (r, s', [OnError err])"
  by (cases onError; cases "the onError err s") (auto simp: call_onError_def)

text \<open>The three ways through the body of the loop.\<close>

lemma iteration_cases:
  obtains
    (break) s1 where "Try panicnil f s = (Returns None, s1)"
      "iteration panicnil f onError p n s tr = Inr (Returns (), s1, tr @ [Attempt None])"
  | (panic) err s1 v s2 evs where "Try panicnil f s = (Returns (Some err), s1)"
      "call_onError onError err s1 = (Panics v, s2, evs)"
      "iteration panicnil f onError p n s tr =
         Inr (Panics (panic_value panicnil v), s2, tr @ Attempt (Some err) # evs)"
  | (continue) err s1 s2 evs where "Try panicnil f s = (Returns (Some err), s1)"
      "call_onError onError err s1 = (Returns (), s2, evs)"
      "iteration panicnil f onError p n s tr =
         Inl (if n > 0 then n - 1 else n, s2,
              tr @ Attempt (Some err) # evs @
                (if (if n > 0 then n - 1 else n) \<noteq> 0 then [Sleep p] else []))"
proof -
  obtain x where T: "Try panicnil f s = (Returns x, snd (f s))" by (rule Try_cases)
  show ?thesis
  proof (cases x)
    case None
    with T show ?thesis using break by (simp add: iteration_def)
  next
    case (Some err)
    obtain r s2 evs where C: "call_onError onError err (snd (f s)) = (r, s2, evs)"
      by (cases "call_onError onError err (snd (f s))")
    show ?thesis
    proof (cases r)
      case (Returns u)
      with T Some C show ?thesis using continue [of err "snd (f s)" s2 evs]
        by (simp add: iteration_def Let_def)
    next
      case (Panics v)
      with T Some C show ?thesis using panic [of err "snd (f s)" v s2 evs]
        by (simp add: iteration_def Let_def)
    qed
  qed
qed

lemma call_onError_events:
  assumes "call_onError onError err s = (r, s', evs)"
  shows "evs = (if onError = None then [] else [OnError err])"
    and "never_panics onError \<Longrightarrow> r = Returns ()"
proof -
  show "evs = (if onError = None then [] else [OnError err])"
    using assms by (cases rule: call_onError_cases [of onError err s]) auto
  show "r = Returns ()" if "never_panics onError"
  proof (cases rule: call_onError_cases [of onError err s])
    case absent
    with assms show ?thesis by simp
  next
    case (called h r' s'')
    from that called(1) have "fst (h err s) \<noteq> Panics v" for v
      unfolding never_panics_def by blast
    with called(2) have "r' \<noteq> Panics v" for v by simp
    then have "r' = Returns ()" by (cases r') auto
    with called(3) assms show ?thesis by simp
  qed
qed

section \<open>Lemmas on the loop\<close>

text \<open>
  What holds of every run that comes back, by induction on the unfolding of the loop:
  \<open>evs\<close> are the events the run adds.
\<close>

lemma loop_run:
  fixes f :: "('s, 'x, 'v) operation"
  assumes "loop panicnil f onError p n s tr = Some y"
  shows "\<exists>evs. snd (snd y) = tr @ evs \<and>
           (n = 0 \<longrightarrow> evs = []) \<and>
           (n \<noteq> 0 \<longrightarrow> (\<exists>pre r post. evs = pre @ Attempt r # post \<and>
                                  attempts post = [] \<and> sleeps post = [])) \<and>
           set (sleeps evs) \<subseteq> {p} \<and>
           reports evs = (if onError = None then [] else failures evs) \<and>
           (never_panics onError \<longrightarrow> fst y = Returns ()) \<and>
           (n < 0 \<and> fst y = Returns () \<longrightarrow> last evs = Attempt None) \<and>
           (\<forall>r \<in> set (attempts evs). \<exists>s0. fst (Try panicnil f s0) = Returns r)"
    (is "?P panicnil f onError p n s tr y")
proof (rule loop.raw_induct [where P = ?P, OF _ assms])
  fix lp :: "bool \<Rightarrow> ('s, 'x, 'v) operation \<Rightarrow> ('s, 'x, 'v) handler option \<Rightarrow> duration \<Rightarrow>
     int \<Rightarrow> 's \<Rightarrow> ('x, 'v) event list \<Rightarrow> ((unit, 'v) result \<times> 's \<times> ('x, 'v) event list) option"
  fix panicnil and f :: "('s, 'x, 'v) operation" and onError p n s tr y
  assume IH: "\<And>panicnil f onError p n s tr y.
    lp panicnil f onError p n s tr = Some y \<Longrightarrow> ?P panicnil f onError p n s tr y"
  assume unfolded: "(if n \<noteq> 0 then
        (case iteration panicnil f onError p n s tr of
           Inl (n, s', tr') \<Rightarrow> lp panicnil f onError p n s' tr'
         | Inr fin \<Rightarrow> Some fin)
      else Some (Returns (), s, tr)) = Some y"
  show "?P panicnil f onError p n s tr y"
  proof (cases "n = 0")
    case True
    with unfolded show ?thesis by auto
  next
    case False
    note nz = this
    show ?thesis
    proof (cases rule: iteration_cases [of panicnil f s onError p n tr])
      case (break s1)
      from break(2) unfolded nz have y: "y = (Returns (), s1, tr @ [Attempt None])" by simp
      from break(1) have "fst (Try panicnil f s) = Returns None" by simp
      then have "\<exists>s0. fst (Try panicnil f s0) = Returns None" ..
      then have "\<forall>r \<in> set (attempts [Attempt None]). \<exists>s0. fst (Try panicnil f s0) = Returns r"
        by simp
      moreover have "\<exists>pre r post. [Attempt None] = pre @ Attempt r # post \<and>
          attempts post = [] \<and> sleeps post = []"
        by (rule exI [of _ "[]"]) simp
      moreover have "snd (snd y) = tr @ [Attempt None]" "fst y = Returns ()"
        "set (sleeps [Attempt None]) \<subseteq> {p}"
        "reports [Attempt None] = (if onError = None then [] else failures [Attempt None])"
        "last [Attempt None] = Attempt None"
        using y by simp_all
      ultimately show ?thesis using nz by blast
    next
      case (panic err s1 v s2 evs)
      note ev = call_onError_events [OF panic(2)]
      let ?step = "Attempt (Some err) # evs"
      from panic(3) unfolded nz have y: "y = (Panics (panic_value panicnil v), s2, tr @ ?step)"
        by simp
      from panic(1) have "fst (Try panicnil f s) = Returns (Some err)" by simp
      then have "\<exists>s0. fst (Try panicnil f s0) = Returns (Some err)" ..
      then have "\<forall>r \<in> set (attempts ?step). \<exists>s0. fst (Try panicnil f s0) = Returns r"
        using ev(1) by simp
      moreover have "\<exists>pre r post. ?step = pre @ Attempt r # post \<and>
          attempts post = [] \<and> sleeps post = []"
        using ev(1) by (intro exI [of _ "[]"] exI [of _ "Some err"] exI [of _ evs]) simp
      moreover have "snd (snd y) = tr @ ?step" "fst y \<noteq> Returns ()" "\<not> never_panics onError"
        "set (sleeps ?step) \<subseteq> {p}"
        "reports ?step = (if onError = None then [] else failures ?step)"
        using y ev by auto
      ultimately show ?thesis using nz by blast
    next
      case (continue err s1 s2 evs)
      let ?n = "if n > 0 then n - 1 else n"
      let ?step = "Attempt (Some err) # evs @ (if ?n \<noteq> 0 then [Sleep p] else [])"
      from unfolded nz continue(3) have L: "lp panicnil f onError p ?n s2 (tr @ ?step) = Some y"
        by simp
      from IH [OF L] obtain evs' where
        E: "snd (snd y) = (tr @ ?step) @ evs'"
        and I: "?n = 0 \<longrightarrow> evs' = []"
          "?n \<noteq> 0 \<longrightarrow> (\<exists>pre r post. evs' = pre @ Attempt r # post \<and>
                                  attempts post = [] \<and> sleeps post = [])"
          "set (sleeps evs') \<subseteq> {p}" "reports evs' = (if onError = None then [] else failures evs')"
          "never_panics onError \<longrightarrow> fst y = Returns ()"
          "?n < 0 \<and> fst y = Returns () \<longrightarrow> last evs' = Attempt None"
          "\<forall>r \<in> set (attempts evs'). \<exists>s0. fst (Try panicnil f s0) = Returns r"
        by blast
      note ev = call_onError_events(1) [OF continue(2)]
      from continue(1) have "fst (Try panicnil f s) = Returns (Some err)" by simp
      then have T: "\<exists>s0. fst (Try panicnil f s0) = Returns (Some err)" ..
      have "snd (snd y) = tr @ (?step @ evs')" using E by simp
      moreover have "\<exists>pre r post. ?step @ evs' = pre @ Attempt r # post \<and>
          attempts post = [] \<and> sleeps post = []"
      proof (cases "?n = 0")
        case True
        with I(1) ev show ?thesis
          by (intro exI [of _ "[]"] exI [of _ "Some err"] exI [of _ evs]) simp
      next
        case False
        with I(2) obtain pre r post where
          "evs' = pre @ Attempt r # post" "attempts post = []" "sleeps post = []" by blast
        then show ?thesis
          by (intro exI [of _ "?step @ pre"] exI [of _ r] exI [of _ post]) simp
      qed
      moreover have "set (sleeps (?step @ evs')) \<subseteq> {p}"
        using I(3) ev by (auto simp: sleeps_append)
      moreover have "reports (?step @ evs') = (if onError = None then [] else failures (?step @ evs'))"
        using I(4) ev by (auto simp: reports_append failures_append)
      moreover have "n < 0 \<and> fst y = Returns () \<longrightarrow> last (?step @ evs') = Attempt None"
      proof
        assume A: "n < 0 \<and> fst y = Returns ()"
        with I(2) have "evs' \<noteq> []" by auto
        with A I(6) show "last (?step @ evs') = Attempt None" by simp
      qed
      moreover have "\<forall>r \<in> set (attempts (?step @ evs')). \<exists>s0. fst (Try panicnil f s0) = Returns r"
        using I(7) T ev by (auto simp: attempts_append)
      ultimately show ?thesis using I(5) nz by blast
    qed
  qed
qed

lemma loop_zero: "loop panicnil f onError p 0 s tr = Some (Returns (), s, tr)"
  by (subst loop.simps) simp

lemma loop_step:
  "n \<noteq> 0 \<Longrightarrow> loop panicnil f onError p n s tr =
     (case iteration panicnil f onError p n s tr of
        Inl (n', s', tr') \<Rightarrow> loop panicnil f onError p n' s' tr'
      | Inr fin \<Rightarrow> Some fin)"
  by (subst loop.simps) simp

text \<open>With a counter that is not negative the loop ends, by induction on the counter.\<close>

lemma loop_bounded:
  "\<exists>res s' evs. loop panicnil f onError p (int k) s tr = Some (res, s', tr @ evs) \<and>
     length (attempts evs) \<le> k"
proof (induction k arbitrary: s tr)
  case 0
  show ?case by (simp add: loop_zero)
next
  case (Suc k)
  have nz: "int (Suc k) \<noteq> 0" by simp
  show ?case
  proof (cases rule: iteration_cases [of panicnil f s onError p "int (Suc k)" tr])
    case (break s1)
    then show ?thesis unfolding loop_step [OF nz] by simp
  next
    case (panic err s1 v s2 evs)
    with call_onError_events(1) [OF panic(2)] show ?thesis
      unfolding loop_step [OF nz] by simp
  next
    case (continue err s1 s2 evs)
    let ?step = "Attempt (Some err) # evs @ (if int k \<noteq> 0 then [Sleep p] else [])"
    from continue(3) have
      "loop panicnil f onError p (int (Suc k)) s tr = loop panicnil f onError p (int k) s2 (tr @ ?step)"
      unfolding loop_step [OF nz] by simp
    moreover from Suc.IH [of s2 "tr @ ?step"] obtain res s' evs' where
      "loop panicnil f onError p (int k) s2 (tr @ ?step) = Some (res, s', (tr @ ?step) @ evs')"
      "length (attempts evs') \<le> k" by blast
    moreover have "length (attempts (?step @ evs')) = Suc (length (attempts evs'))"
      using call_onError_events(1) [OF continue(2)] by (simp add: attempts_append)
    ultimately have "loop panicnil f onError p (int (Suc k)) s tr = Some (res, s', tr @ (?step @ evs'))
      \<and> length (attempts (?step @ evs')) \<le> Suc k" by simp
    then show ?thesis by blast
  qed
qed

lemma fails_Try:
  assumes "always_fails panicnil f"
  obtains err s' where "Try panicnil f s = (Returns (Some err), s')"
proof -
  from assms have "fails panicnil f s" by (simp add: always_fails_def)
  then show ?thesis using that
    by (cases "Try panicnil f s") (auto simp: fails_def split: result.splits option.splits)
qed

lemma loop_always_fails:
  assumes "always_fails panicnil f" "never_panics onError"
  shows "\<exists>s' evs. loop panicnil f onError p (int k) s tr = Some (Returns (), s', tr @ evs) \<and>
     length (failures evs) = k \<and> attempts evs = map Some (failures evs) \<and>
     sleeps evs = replicate (k - 1) p"
proof (induction k arbitrary: s tr)
  case 0
  show ?case by (simp add: loop_zero)
next
  case (Suc k)
  have nz: "int (Suc k) \<noteq> 0" by simp
  obtain err0 s0 where T: "Try panicnil f s = (Returns (Some err0), s0)"
    using assms(1) by (rule fails_Try)
  show ?case
  proof (cases rule: iteration_cases [of panicnil f s onError p "int (Suc k)" tr])
    case (break s1)
    with T show ?thesis by simp
  next
    case (panic err s1 v s2 evs)
    with call_onError_events(2) [OF panic(2) assms(2)] show ?thesis by simp
  next
    case (continue err s1 s2 evs)
    let ?step = "Attempt (Some err) # evs @ (if int k \<noteq> 0 then [Sleep p] else [])"
    note ev = call_onError_events(1) [OF continue(2)]
    from continue(3) have
      "loop panicnil f onError p (int (Suc k)) s tr = loop panicnil f onError p (int k) s2 (tr @ ?step)"
      unfolding loop_step [OF nz] by simp
    moreover from Suc.IH [of s2 "tr @ ?step"] obtain s' evs' where
      "loop panicnil f onError p (int k) s2 (tr @ ?step) = Some (Returns (), s', (tr @ ?step) @ evs')"
      and I: "length (failures evs') = k" "attempts evs' = map Some (failures evs')"
      "sleeps evs' = replicate (k - 1) p" by blast
    moreover have "length (failures (?step @ evs')) = Suc k"
      using I(1) ev by (simp add: failures_append)
    moreover have "attempts (?step @ evs') = map Some (failures (?step @ evs'))"
      using I(2) ev by (simp add: failures_append attempts_append)
    moreover have "sleeps (?step @ evs') = replicate (Suc k - 1) p"
      using I(3) ev by (cases k) (simp_all add: sleeps_append)
    ultimately have "loop panicnil f onError p (int (Suc k)) s tr = Some (Returns (), s', tr @ (?step @ evs'))
      \<and> length (failures (?step @ evs')) = Suc k
      \<and> attempts (?step @ evs') = map Some (failures (?step @ evs'))
      \<and> sleeps (?step @ evs') = replicate (Suc k - 1) p" by simp
    then show ?thesis by blast
  qed
qed

lemma returns_failure_obtain:
  assumes "always_returns_failure f"
  obtains err s1 where "f s = (Returns (Some err), s1)"
proof -
  from assms have "returns_failure f s" by (simp add: always_returns_failure_def)
  then show ?thesis using that
    by (cases "f s") (auto simp: returns_failure_def split: result.splits option.splits)
qed

lemma always_returns_failure_fails:
  "always_returns_failure f \<Longrightarrow> always_fails panicnil f"
  unfolding always_fails_def
proof
  fix s assume "always_returns_failure f"
  then obtain err s1 where "f s = (Returns (Some err), s1)" by (rule returns_failure_obtain)
  from Try_Returns [of f s "Some err" s1 panicnil, OF this]
  show "fails panicnil f s" by (simp add: fails_def)
qed

text \<open>The loop on an operation that always returns a failure is the run described.\<close>

lemma loop_failing_run:
  assumes "always_returns_failure f" "never_panics onError"
  shows "loop panicnil f onError p (int k) s tr =
           Some (Returns (), fst (failing_run k f onError p s),
                 tr @ snd (failing_run k f onError p s))"
proof (induction k arbitrary: s tr)
  case 0
  show ?case by (simp add: loop_zero)
next
  case (Suc k)
  have nz: "int (Suc k) \<noteq> 0" by simp
  obtain err s1 where f: "f s = (Returns (Some err), s1)"
    using assms(1) by (rule returns_failure_obtain)
  note T = Try_Returns [of f s "Some err" s1 panicnil, OF f]
  let ?s2 = "case onError of None \<Rightarrow> s1 | Some h \<Rightarrow> snd (h err s1)"
  let ?evs = "case onError of None \<Rightarrow> [] | Some h \<Rightarrow> [OnError err]"
  have C: "call_onError onError err s1 = (Returns (), ?s2, ?evs)"
  proof (cases rule: call_onError_cases [of onError err s1])
    case absent
    then show ?thesis by simp
  next
    case (called h r s')
    from call_onError_events(2) [OF called(3) assms(2)] called show ?thesis by simp
  qed
  let ?step = "Attempt (Some err) # ?evs @ (if int k \<noteq> 0 then [Sleep p] else [])"
  from T C have "iteration panicnil f onError p (int (Suc k)) s tr = Inl (int k, ?s2, tr @ ?step)"
    by (simp add: iteration_def)
  then have "loop panicnil f onError p (int (Suc k)) s tr =
      loop panicnil f onError p (int k) ?s2 (tr @ ?step)"
    unfolding loop_step [OF nz] by simp
  also have "\<dots> = Some (Returns (), fst (failing_run k f onError p ?s2),
                 (tr @ ?step) @ snd (failing_run k f onError p ?s2))"
    by (rule Suc.IH)
  also have "\<dots> = Some (Returns (), fst (failing_run (Suc k) f onError p s),
                 tr @ snd (failing_run (Suc k) f onError p s))"
    using f by (simp add: Let_def split: prod.splits)
  finally show ?case .
qed

text \<open>When \<^verbatim>\<open>Try\<close> reports no failure, what the operation did.\<close>

lemma Try_no_failure:
  assumes "Try panicnil f s0 = (Returns None, s')"
  shows "f s0 = (Returns None, s') \<or> (panicnil \<and> f s0 = (Panics nil, s'))"
proof (cases "f s0")
  case (Pair r s'')
  show ?thesis
  proof (cases r)
    case (Returns x)
    with Pair assms Try_Returns [of f s0 x s'' panicnil] show ?thesis by simp
  next
    case (Panics v)
    with Pair assms Try_Panics [of f s0 v s'' panicnil] show ?thesis
      by (auto simp: panic_value_def split: if_splits)
  qed
qed

text \<open>A run with a negative counter that returns ends with such a call of \<^verbatim>\<open>Try\<close>.\<close>

lemma loop_unbounded_end:
  fixes f :: "('s, 'x, 'v) operation"
  assumes "loop panicnil f onError p n s tr = Some y"
  shows "n < 0 \<and> fst y = Returns () \<longrightarrow> (\<exists>s0. Try panicnil f s0 = (Returns None, fst (snd y)))"
    (is "?P panicnil f onError p n s tr y")
proof (rule loop.raw_induct [where P = ?P, OF _ assms])
  fix lp :: "bool \<Rightarrow> ('s, 'x, 'v) operation \<Rightarrow> ('s, 'x, 'v) handler option \<Rightarrow> duration \<Rightarrow>
     int \<Rightarrow> 's \<Rightarrow> ('x, 'v) event list \<Rightarrow> ((unit, 'v) result \<times> 's \<times> ('x, 'v) event list) option"
  fix panicnil and f :: "('s, 'x, 'v) operation" and onError p n s tr y
  assume IH: "\<And>panicnil f onError p n s tr y.
    lp panicnil f onError p n s tr = Some y \<Longrightarrow> ?P panicnil f onError p n s tr y"
  assume unfolded: "(if n \<noteq> 0 then
        (case iteration panicnil f onError p n s tr of
           Inl (n, s', tr') \<Rightarrow> lp panicnil f onError p n s' tr'
         | Inr fin \<Rightarrow> Some fin)
      else Some (Returns (), s, tr)) = Some y"
  show "?P panicnil f onError p n s tr y"
  proof
    assume A: "n < 0 \<and> fst y = Returns ()"
    then have nz: "n \<noteq> 0" by simp
    show "\<exists>s0. Try panicnil f s0 = (Returns None, fst (snd y))"
    proof (cases rule: iteration_cases [of panicnil f s onError p n tr])
      case (break s1)
      with unfolded nz have "y = (Returns (), s1, tr @ [Attempt None])" by simp
      with break(1) show ?thesis by auto
    next
      case (panic err s1 v s2 evs)
      with unfolded nz A show ?thesis by auto
    next
      case (continue err s1 s2 evs)
      with unfolded nz A have "lp panicnil f onError p n s2
          (tr @ Attempt (Some err) # evs @ (if n \<noteq> 0 then [Sleep p] else [])) = Some y"
        by simp
      from IH [OF this] A show ?thesis by simp
    qed
  qed
qed

lemma loop_succeeds:
  assumes "n \<noteq> 0" "Try panicnil f s = (Returns None, s')"
  shows "loop panicnil f onError p n s tr = Some (Returns (), s', tr @ [Attempt None])"
  using assms by (cases rule: iteration_cases [of panicnil f s onError p n tr])
    (simp_all add: loop_step)

lemmas Try_defs = Try_def body_def deferred_def recover_def leave_def panic_value_def

section \<open>The claims about \<^verbatim>\<open>Try\<close>\<close>

text \<open>
  C7: when \<^verbatim>\<open>f\<close> returns a failure value, \<^verbatim>\<open>Try(f)\<close> returns that value unchanged;
  when \<^verbatim>\<open>f\<close> returns nil, \<^verbatim>\<open>Try(f)\<close> returns nil; and the caller state after
  \<^verbatim>\<open>Try(f)\<close> is the one \<^verbatim>\<open>f\<close> left, so \<^verbatim>\<open>Try\<close> has no effect of its own.
\<close>

theorem Try_passes_return:
  "(f s = (Returns (Some err), s') \<longrightarrow> Try panicnil f s = (Returns (Some err), s')) \<and>
   (f s = (Returns None, s') \<longrightarrow> Try panicnil f s = (Returns None, s')) \<and>
   snd (Try panicnil f s) = snd (f s)"
proof -
  obtain x where "Try panicnil f s = (Returns x, snd (f s))" by (rule Try_cases)
  then have "snd (Try panicnil f s) = snd (f s)" by simp
  then show ?thesis by (simp add: Try_Returns)
qed

theorem Try_passes_return_witness:
  "returns_DUMMY 0 = (Returns (Some (Other ''DUMMY'')), 1) \<and>
   Try True returns_DUMMY 0 = (Returns (Some (Other ''DUMMY'')), 1) \<and>
   returns_nil 0 = (Returns None, 1) \<and>
   Try True returns_nil 0 = (Returns None, 1) \<and>
   snd (Try True panics_X 0) = snd (panics_X 0)"
  using Try_passes_return [of returns_DUMMY 0 "Other ''DUMMY''" 1 True]
    Try_passes_return [of returns_nil 0 _ 1 True]
    Try_passes_return [of panics_X 0 _ _ True]
  by (simp add: returns_DUMMY_def returns_nil_def)

text \<open>
  C3, as stated, fails: on a runtime that keeps the nil payload of \<^verbatim>\<open>panic(nil)\<close>,
  the deferred function reads nil from \<^verbatim>\<open>recover()\<close>, takes it for the absence of a
  panic, and \<^verbatim>\<open>Try\<close> reports no failure.
\<close>

theorem Try_swallows_panic_nil:
  "panics_nil 0 = (Panics nil, 1) \<and> Try True panics_nil 0 = (Returns None, 1)"
  by (simp add: panics_nil_def Try_defs)

text \<open>
  C3, amended: no panic of \<^verbatim>\<open>f\<close> goes past \<^verbatim>\<open>Try\<close>, whatever the payload; and a
  panic with a payload that is not nil, or any panic on a runtime that replaces the nil
  payload by a \<^verbatim>\<open>*runtime.PanicNilError\<close>, comes back from \<^verbatim>\<open>Try\<close> as a non-nil
  failure value. Only \<^verbatim>\<open>panic(nil)\<close> on a runtime that keeps the nil payload comes
  back as no failure.
\<close>

theorem Try_observes_panic:
  assumes "f s = (Panics v, s')"
  shows "(\<forall>w. fst (Try panicnil f s) \<noteq> Panics w) \<and>
         (v \<noteq> nil \<or> \<not> panicnil \<longrightarrow> (\<exists>err. Try panicnil f s = (Returns (Some err), s'))) \<and>
         (v = nil \<and> panicnil \<longrightarrow> Try panicnil f s = (Returns None, s'))"
  using Try_Panics [of f s v s' panicnil] assms by (auto simp: panic_value_def)

theorem Try_observes_panic_witness:
  "panics_X 0 = (Panics (Val ''X''), 1) \<and>
   (\<forall>w. fst (Try True panics_X 0) \<noteq> Panics w) \<and>
   (\<exists>err. Try True panics_X 0 = (Returns (Some err), 1)) \<and>
   panics_nil 0 = (Panics nil, 1) \<and>
   (\<exists>err. Try False panics_nil 0 = (Returns (Some err), 1)) \<and>
   Try True panics_nil 0 = (Returns None, 1)"
  using Try_observes_panic [of panics_X 0 "Val ''X''" 1 True]
    Try_observes_panic [of panics_nil 0 nil 1 False]
    Try_observes_panic [of panics_nil 0 nil 1 True]
  by (simp add: panics_X_def panics_nil_def)

text \<open>
  C2, as stated, fails for the payload nil: \<^verbatim>\<open>Try\<close> returns either no failure at all,
  or a \<^verbatim>\<open>recovered\<close> whose \<^verbatim>\<open>CausedBy()\<close> is the runtime's
  \<^verbatim>\<open>*runtime.PanicNilError\<close> and not the payload.
\<close>

theorem recovered_panic_nil_differs:
  "panics_nil 0 = (Panics nil, 1) \<and>
   fst (Try True panics_nil 0) = Returns None \<and>
   fst (Try False panics_nil 0) = Returns (Some (Recovered \<lparr>e = PanicNilError\<rparr>)) \<and>
   CausedBy \<lparr>e = PanicNilError :: string iface\<rparr> \<noteq> nil"
  by (simp add: panics_nil_def Try_defs CausedBy_def)

text \<open>
  C2, amended: when \<^verbatim>\<open>f\<close> panics with a payload \<open>v\<close> that is not nil,
  \<^verbatim>\<open>Try(f)\<close> returns a \<^verbatim>\<open>recovered\<close> whose \<^verbatim>\<open>CausedBy()\<close> is \<open>v\<close> and whose
  \<^verbatim>\<open>Error()\<close> is the fixed message; the iteration of \<^verbatim>\<open>Retry\<close> is then the one
  of any operation \<open>g\<close> that returns this value in the ordinary way, and with a handler
  that returns it passes the value to the handler and goes on with the loop.
\<close>

theorem Try_wraps_panic:
  assumes "f s = (Panics v, s')" and "v \<noteq> nil"
  shows "Try panicnil f s = (Returns (Some (Recovered \<lparr>e = v\<rparr>)), s') \<and>
         CausedBy \<lparr>e = v\<rparr> = v \<and>
         Error \<lparr>e = v\<rparr> = ''RECOVERED, UNKNOWN ERROR; CALL CausedBy() interface{}'' \<and>
         (g s = (Returns (Some (Recovered \<lparr>e = v\<rparr>)), s') \<longrightarrow>
            iteration panicnil f onError p n s tr = iteration panicnil g onError p n s tr) \<and>
         (onError = Some h \<and> h (Recovered \<lparr>e = v\<rparr>) s' = (Returns (), s2) \<longrightarrow>
            iteration panicnil f onError p n s tr =
              Inl (if n > 0 then n - 1 else n, s2,
                   tr @ [Attempt (Some (Recovered \<lparr>e = v\<rparr>)), OnError (Recovered \<lparr>e = v\<rparr>)] @
                     (if (if n > 0 then n - 1 else n) \<noteq> 0 then [Sleep p] else [])))"
proof -
  have T: "Try panicnil f s = (Returns (Some (Recovered \<lparr>e = v\<rparr>)), s')"
    using Try_Panics [of f s v s' panicnil] assms by (simp add: panic_value_def)
  have "iteration panicnil f onError p n s tr = iteration panicnil g onError p n s tr"
    if "g s = (Returns (Some (Recovered \<lparr>e = v\<rparr>)), s')"
    using T Try_Returns [of g s _ s' panicnil] that by (simp add: iteration_def)
  moreover have "iteration panicnil f onError p n s tr =
              Inl (if n > 0 then n - 1 else n, s2,
                   tr @ [Attempt (Some (Recovered \<lparr>e = v\<rparr>)), OnError (Recovered \<lparr>e = v\<rparr>)] @
                     (if (if n > 0 then n - 1 else n) \<noteq> 0 then [Sleep p] else []))"
    if "onError = Some h \<and> h (Recovered \<lparr>e = v\<rparr>) s' = (Returns (), s2)"
    using T that by (simp add: iteration_def call_onError_def Let_def)
  ultimately show ?thesis using T by (simp add: CausedBy_def Error_def)
qed

theorem Try_wraps_panic_witness:
  "panics_X 0 = (Panics (Val ''X''), 1) \<and> Val ''X'' \<noteq> (nil :: string iface) \<and>
   Try True panics_X 0 = (Returns (Some (Recovered \<lparr>e = Val ''X''\<rparr>)), 1) \<and>
   CausedBy \<lparr>e = Val ''X''\<rparr> = Val ''X'' \<and>
   iteration True panics_X (Some count_error) 50000000 3 0 [] =
     iteration True (\<lambda>c. (Returns (Some (Recovered \<lparr>e = Val ''X''\<rparr>)), c + 1))
       (Some count_error) 50000000 3 0 [] \<and>
   count_error (Recovered \<lparr>e = Val ''X''\<rparr>) 1 = (Returns (), 2) \<and>
   iteration True panics_X (Some count_error) 50000000 3 0 [] =
     Inl (2, 2, [Attempt (Some (Recovered \<lparr>e = Val ''X''\<rparr>)),
                 OnError (Recovered \<lparr>e = Val ''X''\<rparr>), Sleep 50000000])"
  using Try_wraps_panic [where f = panics_X and s = 0 and v = "Val ''X''" and s' = 1
      and g = "\<lambda>c. (Returns (Some (Recovered \<lparr>e = Val ''X''\<rparr>)), c + 1)"
      and panicnil = True and onError = "Some count_error" and p = 50000000 and n = 3
      and tr = "[]" and h = count_error and ?s2.0 = 2]
  by (auto simp: panics_X_def count_error_def)

section \<open>The claims about \<^verbatim>\<open>Retry\<close>\<close>

text \<open>
  C5: with \<^verbatim>\<open>numberOfRetries = 0\<close>, \<^verbatim>\<open>Retry\<close> returns at once: no call of
  \<^verbatim>\<open>f\<close>, of \<^verbatim>\<open>onError\<close> or of \<^verbatim>\<open>time.Sleep\<close>, and the caller state is
  untouched.
\<close>

theorem Retry_zero_attempts:
  "Retry panicnil f 0 onError period s = Some (Returns (), s, [])"
  by (simp add: Retry_def loop_zero)


lemmas loop_defs = Retry_def sleep_period_def Second_def loop.simps iteration_def call_onError_def

text \<open>The sleeps of one iteration: one, of length \<open>p\<close>, exactly when the loop goes on.\<close>

lemma iteration_sleeps:
  "iteration panicnil f onError p n s tr = Inl (n', s1, tr1) \<Longrightarrow>
     \<exists>evs. tr1 = tr @ evs \<and> sleeps evs = (if n' \<noteq> 0 then [p] else [])"
  "iteration panicnil f onError p n s tr = Inr (res, s1, tr1) \<Longrightarrow>
     \<exists>evs. tr1 = tr @ evs \<and> sleeps evs = []"
proof -
  show "\<exists>evs. tr1 = tr @ evs \<and> sleeps evs = (if n' \<noteq> 0 then [p] else [])"
    if "iteration panicnil f onError p n s tr = Inl (n', s1, tr1)"
  proof (cases rule: iteration_cases [of panicnil f s onError p n tr])
    case (continue err s1' s2 evs)
    with that call_onError_events(1) [OF continue(2)] show ?thesis
      by (auto simp: sleeps_append)
  qed (use that in simp_all)
  show "\<exists>evs. tr1 = tr @ evs \<and> sleeps evs = []"
    if "iteration panicnil f onError p n s tr = Inr (res, s1, tr1)"
  proof (cases rule: iteration_cases [of panicnil f s onError p n tr])
    case (panic err s1' v s2 evs)
    with that call_onError_events(1) [OF panic(2)] show ?thesis by auto
  qed (use that in simp_all)
qed

text \<open>
  C1: with \<^verbatim>\<open>numberOfRetries = N > 0\<close> and an operation that returns a failure at
  every call, \<^verbatim>\<open>Retry\<close> returns, and its run is the run of \<open>N\<close> rounds described
  above: the caller state is the one that \<open>N\<close> calls of \<^verbatim>\<open>f\<close>, each followed by the
  call of the handler with the failure just returned, leave behind, and the events are
  those calls in that order. So there are exactly \<open>N\<close> calls of the operation, all
  failures; with a handler exactly \<open>N\<close> calls of \<^verbatim>\<open>onError\<close>, the k-th with the
  failure of the k-th call of the operation; without one there is none. The handler is
  taken to return, as the package expects of it.
\<close>

theorem Retry_always_failing:
  assumes "0 < N" and "always_returns_failure f" and "never_panics onError"
  shows "\<exists>s' tr. failing_run (nat N) f onError (sleep_period period) s = (s', tr) \<and>
           Retry panicnil f N onError period s = Some (Returns (), s', tr) \<and>
           length (attempts tr) = nat N \<and>
           attempts tr = map Some (failures tr) \<and>
           (onError \<noteq> None \<longrightarrow> length (reports tr) = nat N \<and> reports tr = failures tr) \<and>
           (onError = None \<longrightarrow> reports tr = [])"
proof -
  obtain s' tr where F: "failing_run (nat N) f onError (sleep_period period) s = (s', tr)"
    by (cases "failing_run (nat N) f onError (sleep_period period) s")
  from loop_failing_run [OF assms(2,3), of panicnil "sleep_period period" "nat N" s "[]"] F assms(1)
  have R: "Retry panicnil f N onError period s = Some (Returns (), s', tr)"
    by (simp add: Retry_def)
  from loop_always_fails [OF always_returns_failure_fails [OF assms(2)] assms(3),
      of panicnil "sleep_period period" "nat N" s "[]"] assms(1) R
  have A: "length (failures tr) = nat N" "attempts tr = map Some (failures tr)"
    by (auto simp: Retry_def)
  from R have "loop panicnil f onError (sleep_period period) N s [] = Some (Returns (), s', tr)"
    by (simp add: Retry_def)
  from loop_run [OF this] have "reports tr = (if onError = None then [] else failures tr)"
    by auto
  with F R A show ?thesis by auto
qed

theorem Retry_always_failing_witness:
  "(0::int) < 3 \<and> always_returns_failure returns_DUMMY \<and> never_panics (Some count_error) \<and>
   failing_run 3 returns_DUMMY (Some count_error) 50000000 0 =
     (6, [Attempt (Some (Other ''DUMMY'')), OnError (Other ''DUMMY''), Sleep 50000000,
          Attempt (Some (Other ''DUMMY'')), OnError (Other ''DUMMY''), Sleep 50000000,
          Attempt (Some (Other ''DUMMY'')), OnError (Other ''DUMMY'')]) \<and>
   Retry True returns_DUMMY 3 (Some count_error) [50000000] 0 =
     Some (Returns (), 6,
       [Attempt (Some (Other ''DUMMY'')), OnError (Other ''DUMMY''), Sleep 50000000,
        Attempt (Some (Other ''DUMMY'')), OnError (Other ''DUMMY''), Sleep 50000000,
        Attempt (Some (Other ''DUMMY'')), OnError (Other ''DUMMY'')])"
proof -
  have h: "always_returns_failure returns_DUMMY" "never_panics (Some count_error)"
    by (simp_all add: always_returns_failure_def returns_failure_def returns_DUMMY_def
        never_panics_def count_error_def)
  have n: "(0::int) < 3" by simp
  have F: "failing_run 3 returns_DUMMY (Some count_error) 50000000 0 =
     (6, [Attempt (Some (Other ''DUMMY'')), OnError (Other ''DUMMY''), Sleep 50000000,
          Attempt (Some (Other ''DUMMY'')), OnError (Other ''DUMMY''), Sleep 50000000,
          Attempt (Some (Other ''DUMMY'')), OnError (Other ''DUMMY'')])"
    by (simp add: numeral_3_eq_3 returns_DUMMY_def count_error_def)
  have p: "sleep_period [50000000] = 50000000" by (simp add: sleep_period_def)
  from Retry_always_failing [OF n h, of "[50000000]" 0 True] F p h show ?thesis by auto
qed

text \<open>
  C4, as stated, fails for \<^verbatim>\<open>numberOfRetries = 0\<close>: an operation that would return
  nil at its first call is then not called at all.
\<close>

theorem Retry_zero_skips_succeeding:
  "returns_nil 0 = (Returns None, 1) \<and>
   Retry True returns_nil 0 (Some count_error) [] 0 = Some (Returns (), 0, []) \<and>
   Retry True returns_nil 0 (Some count_error) [] 0 \<noteq> Some (Returns (), 1, [Attempt None])"
  by (simp add: returns_nil_def Retry_def loop_zero)

text \<open>
  C4, amended: when the operation returns nil at its first call and
  \<^verbatim>\<open>numberOfRetries\<close> is not zero, positive or negative, \<^verbatim>\<open>Retry\<close> returns after
  that one call: no call of \<^verbatim>\<open>onError\<close>, no sleep.
\<close>

theorem Retry_first_success:
  assumes "f s = (Returns None, s')" and "n \<noteq> 0"
  shows "Retry panicnil f n onError period s = Some (Returns (), s', [Attempt None])"
  using loop_succeeds [OF assms(2) Try_Returns, of f s s' panicnil onError "sleep_period period" "[]"] assms(1)
  by (simp add: Retry_def)

theorem Retry_first_success_witness:
  "returns_nil 0 = (Returns None, 1) \<and> (3::int) \<noteq> 0 \<and> (-1::int) \<noteq> 0 \<and>
   Retry True returns_nil 3 (Some count_error) [50000000] 0 = Some (Returns (), 1, [Attempt None]) \<and>
   Retry True returns_nil (-1) (Some count_error) [50000000] 0 = Some (Returns (), 1, [Attempt None])"
  using Retry_first_success [of returns_nil 0 1 3 True "Some count_error" "[50000000]"]
    Retry_first_success [of returns_nil 0 1 "-1" True "Some count_error" "[50000000]"]
  by (simp add: returns_nil_def)

text \<open>
  C6: the period of every sleep is \<^verbatim>\<open>period[0]\<close> when that is given and positive, and
  5 seconds (in nanoseconds) otherwise; an iteration sleeps, once, exactly when the loop
  goes on after it, and an iteration that ends \<^verbatim>\<open>Retry\<close> does not sleep; so in a run
  that returns every sleep has that period and nothing, neither an attempt nor a sleep,
  follows the events of the last attempt; and with \<open>N > 0\<close> and an operation that always
  fails there are exactly \<open>N - 1\<close> sleeps. The handler is taken to return in the last
  part.
\<close>

theorem Retry_sleeps:
  "(sleep_period period =
      (if period \<noteq> [] \<and> hd period > 0 then hd period else 5000000000)) \<and>
   (iteration panicnil f onError (sleep_period period) n s0 tr0 = Inl (n', s1, tr1) \<longrightarrow>
      (\<exists>evs. tr1 = tr0 @ evs \<and>
         sleeps evs = (if n' \<noteq> 0 then [sleep_period period] else []))) \<and>
   (iteration panicnil f onError (sleep_period period) n s0 tr0 = Inr (res, s1, tr1) \<longrightarrow>
      (\<exists>evs. tr1 = tr0 @ evs \<and> sleeps evs = [])) \<and>
   (Retry panicnil f n onError period s = Some (res, s', tr) \<longrightarrow>
      set (sleeps tr) \<subseteq> {sleep_period period} \<and>
      (n \<noteq> 0 \<longrightarrow> (\<exists>pre r post. tr = pre @ Attempt r # post \<and>
                              attempts post = [] \<and> sleeps post = []))) \<and>
   (0 < n \<and> always_fails panicnil f \<and> never_panics onError \<longrightarrow>
      (\<exists>s' tr. Retry panicnil f n onError period s = Some (Returns (), s', tr) \<and>
         sleeps tr = replicate (nat n - 1) (sleep_period period)))"
proof -
  have "sleep_period period =
      (if period \<noteq> [] \<and> hd period > 0 then hd period else 5000000000)"
    by (cases period) (simp_all add: sleep_period_def Second_def)
  moreover have "set (sleeps tr) \<subseteq> {sleep_period period} \<and>
      (n \<noteq> 0 \<longrightarrow> (\<exists>pre r post. tr = pre @ Attempt r # post \<and>
                              attempts post = [] \<and> sleeps post = []))"
    if "Retry panicnil f n onError period s = Some (res, s', tr)"
  proof -
    from that have "loop panicnil f onError (sleep_period period) n s [] = Some (res, s', tr)"
      by (simp add: Retry_def)
    from loop_run [OF this] show ?thesis by auto
  qed
  moreover have "\<exists>s' tr. Retry panicnil f n onError period s = Some (Returns (), s', tr) \<and>
         sleeps tr = replicate (nat n - 1) (sleep_period period)"
    if "0 < n \<and> always_fails panicnil f \<and> never_panics onError"
    using loop_always_fails [of panicnil f onError "sleep_period period" "nat n" s "[]"] that
    by (auto simp: Retry_def)
  ultimately show ?thesis
    using iteration_sleeps [of panicnil f onError "sleep_period period" n s0 tr0]
    by blast
qed

theorem Retry_sleeps_witness:
  "iteration True returns_DUMMY None (sleep_period [50000000]) 3 0 [] =
     Inl (2, 1, [Attempt (Some (Other ''DUMMY'')), Sleep 50000000]) \<and>
   iteration True returns_DUMMY None (sleep_period [50000000]) 1 2
       [Attempt (Some (Other ''DUMMY'')), Sleep 50000000] =
     Inl (0, 3, [Attempt (Some (Other ''DUMMY'')), Sleep 50000000,
                 Attempt (Some (Other ''DUMMY''))]) \<and>
   iteration True returns_nil None (sleep_period [50000000]) 3 0 [] =
     Inr (Returns (), 1, [Attempt None]) \<and>
   Retry True returns_DUMMY 3 None [50000000] 0 =
     Some (Returns (), 3, [Attempt (Some (Other ''DUMMY'')), Sleep 50000000,
                           Attempt (Some (Other ''DUMMY'')), Sleep 50000000,
                           Attempt (Some (Other ''DUMMY''))]) \<and>
   (0::int) < 3 \<and> always_fails True returns_DUMMY \<and>
   never_panics (None :: (nat, string, string) handler option) \<and>
   (\<exists>s' tr. Retry True returns_DUMMY 3 None [50000000] 0 = Some (Returns (), s', tr) \<and>
      sleeps tr = replicate 2 (sleep_period [50000000])) \<and>
   sleep_period [50000000] = 50000000 \<and>
   sleep_period [] = 5000000000 \<and> sleep_period [0, 7] = 5000000000"
proof -
  have I: "iteration True returns_DUMMY None (sleep_period [50000000]) 3 0 [] =
     Inl (2, 1, [Attempt (Some (Other ''DUMMY'')), Sleep 50000000])"
    "iteration True returns_DUMMY None (sleep_period [50000000]) 1 2
       [Attempt (Some (Other ''DUMMY'')), Sleep 50000000] =
     Inl (0, 3, [Attempt (Some (Other ''DUMMY'')), Sleep 50000000,
                 Attempt (Some (Other ''DUMMY''))])"
    "iteration True returns_nil None (sleep_period [50000000]) 3 0 [] =
     Inr (Returns (), 1, [Attempt None])"
    by (simp_all add: loop_defs returns_DUMMY_def returns_nil_def Try_defs)
  have R: "Retry True returns_DUMMY 3 None [50000000] 0 =
     Some (Returns (), 3, [Attempt (Some (Other ''DUMMY'')), Sleep 50000000,
                           Attempt (Some (Other ''DUMMY'')), Sleep 50000000,
                           Attempt (Some (Other ''DUMMY''))])"
    by (simp add: loop_defs returns_DUMMY_def Try_defs)
  have h: "always_fails True returns_DUMMY"
    "never_panics (None :: (nat, string, string) handler option)"
    by (simp_all add: always_fails_def fails_def returns_DUMMY_def Try_defs never_panics_def)
  note W = Retry_sleeps [where panicnil = True and f = returns_DUMMY and n = 3
      and onError = None and s = 0 and ?s0.0 = 0 and ?tr0.0 = "[]" and n' = 2 and ?s1.0 = 1
      and ?tr1.0 = "[Attempt (Some (Other ''DUMMY'')), Sleep 50000000]"
      and res = "Returns ()" and s' = 3
      and tr = "[Attempt (Some (Other ''DUMMY'')), Sleep 50000000,
                 Attempt (Some (Other ''DUMMY'')), Sleep 50000000,
                 Attempt (Some (Other ''DUMMY''))]"]
  have n: "(0::int) < 3" "nat 3 - 1 = 2" by simp_all
  from W [of "[50000000]"] h n(1) have
    "\<exists>s' tr. Retry True returns_DUMMY 3 None [50000000] 0 = Some (Returns (), s', tr) \<and>
      sleeps tr = replicate (nat 3 - 1) (sleep_period [50000000])" by blast
  then have
    "\<exists>s' tr. Retry True returns_DUMMY 3 None [50000000] 0 = Some (Returns (), s', tr) \<and>
      sleeps tr = replicate 2 (sleep_period [50000000])" unfolding n(2) .
  moreover from W [of "[50000000]"] have "sleep_period [50000000] = 50000000" by simp
  moreover from W [of "[]"] have "sleep_period [] = 5000000000" by simp
  moreover from W [of "[0, 7]"] have "sleep_period [0, 7] = 5000000000" by simp
  ultimately show ?thesis using I R h by simp
qed

text \<open>
  C8: when the handler never panics, \<^verbatim>\<open>Retry\<close> never panics: no call of \<^verbatim>\<open>Try\<close>
  ends in a panic, whatever the operation does, no run of \<^verbatim>\<open>Retry\<close> ends in one,
  and a run that comes back has returned, having passed every failure, in order, to
  the handler when there is one.
\<close>

theorem Retry_never_panics:
  assumes "never_panics onError"
  shows "fst (Try panicnil f s0) \<noteq> Panics w \<and>
         Retry panicnil f n onError period s \<noteq> Some (Panics w, s', tr) \<and>
         (Retry panicnil f n onError period s = Some (res, s', tr) \<longrightarrow>
            res = Returns () \<and> reports tr = (if onError = None then [] else failures tr))"
proof -
  obtain x where "Try panicnil f s0 = (Returns x, snd (f s0))" by (rule Try_cases)
  then have T: "fst (Try panicnil f s0) \<noteq> Panics w" by simp
  have R: "fst y = Returns () \<and> reports (snd (snd y)) = (if onError = None then [] else failures (snd (snd y)))"
    if "Retry panicnil f n onError period s = Some y" for y
  proof -
    from that have "loop panicnil f onError (sleep_period period) n s [] = Some y"
      by (simp add: Retry_def)
    from loop_run [OF this] assms show ?thesis by auto
  qed
  from R [of "(Panics w, s', tr)"] R [of "(res, s', tr)"] T show ?thesis by auto
qed

theorem Retry_never_panics_witness:
  "never_panics (Some count_error) \<and>
   fst (Try True panics_X 0) \<noteq> Panics (Val ''X'') \<and>
   Retry True panics_X 2 (Some count_error) [1000] 0 =
     Some (Returns (), 4, [Attempt (Some (Recovered \<lparr>e = Val ''X''\<rparr>)),
                           OnError (Recovered \<lparr>e = Val ''X''\<rparr>), Sleep 1000,
                           Attempt (Some (Recovered \<lparr>e = Val ''X''\<rparr>)),
                           OnError (Recovered \<lparr>e = Val ''X''\<rparr>)]) \<and>
   reports [Attempt (Some (Recovered \<lparr>e = Val ''X''\<rparr>)),
            OnError (Recovered \<lparr>e = Val ''X''\<rparr>), Sleep 1000,
            Attempt (Some (Recovered \<lparr>e = Val ''X''\<rparr>)),
            OnError (Recovered \<lparr>e = Val ''X'' :: string iface\<rparr> :: (string, string) error)] =
     [Recovered \<lparr>e = Val ''X''\<rparr>, Recovered \<lparr>e = Val ''X''\<rparr>]"
proof -
  have h: "never_panics (Some count_error)"
    by (simp add: never_panics_def count_error_def)
  have R: "Retry True panics_X 2 (Some count_error) [1000] 0 =
     Some (Returns (), 4, [Attempt (Some (Recovered \<lparr>e = Val ''X''\<rparr>)),
                           OnError (Recovered \<lparr>e = Val ''X''\<rparr>), Sleep 1000,
                           Attempt (Some (Recovered \<lparr>e = Val ''X''\<rparr>)),
                           OnError (Recovered \<lparr>e = Val ''X''\<rparr>)])"
    by (simp add: loop_defs panics_X_def count_error_def Try_defs)
  from Retry_never_panics [OF h, where panicnil = True and f = panics_X and ?s0.0 = 0
      and w = "Val ''X''" and n = 2 and period = "[1000]" and s = 0] R h
  show ?thesis by auto
qed

text \<open>
  The assumption on the handler is needed: a panic of \<^verbatim>\<open>onError\<close> ends \<^verbatim>\<open>Retry\<close>
  after the first attempt and goes on to the caller.
\<close>

lemma Retry_handler_panic_unwinds:
  "Retry True panics_X 3 (Some panics_H) [] 0 =
     Some (Panics (Val ''H''), 1, [Attempt (Some (Recovered \<lparr>e = Val ''X''\<rparr>)),
                                    OnError (Recovered \<lparr>e = Val ''X''\<rparr>)])"
  by (simp add: loop_defs panics_X_def panics_H_def Try_defs)

text \<open>
  C9, as stated, fails: with \<^verbatim>\<open>numberOfRetries < 0\<close>, on a runtime that keeps the nil
  payload of \<^verbatim>\<open>panic(nil)\<close>, \<^verbatim>\<open>Retry\<close> returns after an operation that never
  returned anything: it panicked with nil, and \<^verbatim>\<open>Try\<close> reported no failure.
\<close>

theorem Retry_unbounded_ends_on_panic_nil:
  "panics_nil 0 = (Panics nil, 1) \<and>
   Retry True panics_nil (-1) (Some count_error) [] 0 = Some (Returns (), 1, [Attempt None])"
  by (simp add: loop_defs panics_nil_def Try_defs)

text \<open>
  C9, amended: with \<^verbatim>\<open>numberOfRetries < 0\<close> an iteration leaves the counter as it
  is, so it stays negative; a run that returns ends with a call of \<^verbatim>\<open>Try(f)\<close> that
  reported no failure, and in that call the operation either returned no failure or, on
  a runtime that keeps the nil payload, panicked with nil, leaving the final caller
  state; a run that ends in a panic has a handler that panics; so with an operation on
  which \<^verbatim>\<open>Try\<close> always reports a failure \<^verbatim>\<open>Retry\<close> does not return, and with a
  handler that never panics it runs forever.
\<close>

theorem Retry_unbounded:
  assumes "n < 0"
  shows "(iteration panicnil f onError p n s tr = Inl (n', s1, tr1) \<longrightarrow> n' = n \<and> n' < 0) \<and>
         (Retry panicnil f n onError period s = Some (Returns (), s', tr') \<longrightarrow>
            tr' \<noteq> [] \<and> last tr' = Attempt None \<and>
            (\<exists>s0. f s0 = (Returns None, s') \<or> (panicnil \<and> f s0 = (Panics nil, s')))) \<and>
         (Retry panicnil f n onError period s = Some (Panics w, s', tr') \<longrightarrow>
            \<not> never_panics onError) \<and>
         (always_fails panicnil f \<longrightarrow>
            Retry panicnil f n onError period s \<noteq> Some (Returns (), s', tr')) \<and>
         (always_fails panicnil f \<and> never_panics onError \<longrightarrow>
            Retry panicnil f n onError period s = None)"
proof -
  have step: "n' = n \<and> n' < 0" if "iteration panicnil f onError p n s tr = Inl (n', s1, tr1)"
    using that assms
    by (cases rule: iteration_cases [of panicnil f s onError p n tr]) simp_all
  have run: "tr' \<noteq> [] \<and> last tr' = Attempt None \<and>
      (\<exists>s0. Try panicnil f s0 = (Returns None, s'))"
    if "Retry panicnil f n onError period s = Some (Returns (), s', tr')" for s' tr'
  proof -
    from that have L: "loop panicnil f onError (sleep_period period) n s [] = Some (Returns (), s', tr')"
      by (simp add: Retry_def)
    from loop_run [OF L] assms obtain pre r post where
      "tr' = pre @ Attempt r # post" "last tr' = Attempt None"
      by auto
    moreover from loop_unbounded_end [OF L] assms
    have "\<exists>s0. Try panicnil f s0 = (Returns None, s')" by simp
    ultimately show ?thesis by simp
  qed
  have op: "tr' \<noteq> [] \<and> last tr' = Attempt None \<and>
      (\<exists>s0. f s0 = (Returns None, s') \<or> (panicnil \<and> f s0 = (Panics nil, s')))"
    if "Retry panicnil f n onError period s = Some (Returns (), s', tr')"
  proof -
    from run [OF that] obtain s0 where "Try panicnil f s0 = (Returns None, s')" by blast
    from Try_no_failure [OF this] run [OF that] show ?thesis by blast
  qed
  have handler: "\<not> never_panics onError"
    if "Retry panicnil f n onError period s = Some (Panics w, s', tr')"
  proof
    assume "never_panics onError"
    moreover from that
    have "loop panicnil f onError (sleep_period period) n s [] = Some (Panics w, s', tr')"
      by (simp add: Retry_def)
    from loop_run [OF this] have "never_panics onError \<longrightarrow> Panics w = Returns ()" by auto
    ultimately show False by simp
  qed
  have never: "Retry panicnil f n onError period s \<noteq> Some (Returns (), s', tr')"
    if af: "always_fails panicnil f" for s' tr'
  proof
    assume "Retry panicnil f n onError period s = Some (Returns (), s', tr')"
    from run [OF this] obtain s0 where "Try panicnil f s0 = (Returns None, s')" by blast
    moreover from af have "fails panicnil f s0" by (simp add: always_fails_def)
    ultimately show False by (simp add: fails_def)
  qed
  have diverges: "Retry panicnil f n onError period s = None"
    if af: "always_fails panicnil f \<and> never_panics onError"
  proof (rule ccontr)
    assume "Retry panicnil f n onError period s \<noteq> None"
    then obtain y where y: "Retry panicnil f n onError period s = Some y" by blast
    then have "loop panicnil f onError (sleep_period period) n s [] = Some y"
      by (simp add: Retry_def)
    from loop_run [OF this] af have "fst y = Returns ()" by auto
    then have "y = (Returns (), fst (snd y), snd (snd y))" by (metis prod.collapse)
    with y never [of "fst (snd y)" "snd (snd y)"] af show False by simp
  qed
  from step op handler never diverges show ?thesis by blast
qed

theorem Retry_unbounded_witness:
  "(-1::int) < 0 \<and>
   iteration True panics_X (Some count_error) 1000 (-1) 0 [] =
     Inl (-1, 2, [Attempt (Some (Recovered \<lparr>e = Val ''X''\<rparr>)),
                  OnError (Recovered \<lparr>e = Val ''X''\<rparr>), Sleep 1000]) \<and>
   Retry True until_cancelled (-1) (Some cancel) [1000] (False, 0) =
     Some (Returns (), (True, 1), [Attempt (Some (Recovered \<lparr>e = Val ''X''\<rparr>)),
                                   OnError (Recovered \<lparr>e = Val ''X''\<rparr>), Sleep 1000,
                                   Attempt None]) \<and>
   (\<exists>s0. until_cancelled s0 = (Returns None, (True, 1)) \<or>
         until_cancelled s0 = (Panics nil, (True, 1))) \<and>
   until_cancelled (True, 1) = (Returns None, (True, 1)) \<and>
   Retry True panics_X (-1) (Some panics_H) [1000] 0 =
     Some (Panics (Val ''H''), 1, [Attempt (Some (Recovered \<lparr>e = Val ''X''\<rparr>)),
                                    OnError (Recovered \<lparr>e = Val ''X''\<rparr>)]) \<and>
   \<not> never_panics (Some panics_H) \<and>
   always_fails True panics_X \<and> never_panics (Some count_error) \<and>
   Retry True panics_X (-1) (Some count_error) [1000] 0 = None"
proof -
  have I: "iteration True panics_X (Some count_error) 1000 (-1) 0 [] =
     Inl (-1, 2, [Attempt (Some (Recovered \<lparr>e = Val ''X''\<rparr>)),
                  OnError (Recovered \<lparr>e = Val ''X''\<rparr>), Sleep 1000])"
    by (simp add: iteration_def call_onError_def panics_X_def count_error_def Try_defs)
  have R: "Retry True until_cancelled (-1) (Some cancel) [1000] (False, 0) =
     Some (Returns (), (True, 1), [Attempt (Some (Recovered \<lparr>e = Val ''X''\<rparr>)),
                                   OnError (Recovered \<lparr>e = Val ''X''\<rparr>), Sleep 1000,
                                   Attempt None])"
    by (simp add: loop_defs until_cancelled_def cancel_def Try_defs)
  have H: "Retry True panics_X (-1) (Some panics_H) [1000] 0 =
     Some (Panics (Val ''H''), 1, [Attempt (Some (Recovered \<lparr>e = Val ''X''\<rparr>)),
                                    OnError (Recovered \<lparr>e = Val ''X''\<rparr>)])"
    by (simp add: loop_defs panics_X_def panics_H_def Try_defs)
  have h: "always_fails True panics_X" "never_panics (Some count_error)"
    by (simp_all add: always_fails_def fails_def panics_X_def Try_defs
        never_panics_def count_error_def)
  have n: "(-1::int) < 0" by simp
  from Retry_unbounded [OF n, where panicnil = True and f = until_cancelled
      and onError = "Some cancel" and period = "[1000]" and s = "(False, 0)"] R
  have "\<exists>s0. until_cancelled s0 = (Returns None, (True, 1)) \<or>
         until_cancelled s0 = (Panics nil, (True, 1))" by blast
  moreover have "until_cancelled (True, 1) = (Returns None, (True, 1))"
    by (simp add: until_cancelled_def)
  moreover from Retry_unbounded [OF n, where panicnil = True and f = panics_X
      and onError = "Some panics_H" and period = "[1000]" and s = 0] H
  have "\<not> never_panics (Some panics_H)" by blast
  moreover from Retry_unbounded [OF n, where panicnil = True and f = panics_X
      and onError = "Some count_error" and period = "[1000]" and s = 0] h
  have "Retry True panics_X (-1) (Some count_error) [1000] 0 = None" by blast
  ultimately show ?thesis using I R H h by simp
qed

text \<open>
  C10: with \<^verbatim>\<open>numberOfRetries = N \<ge> 0\<close> every run of \<^verbatim>\<open>Retry\<close> ends, whatever the
  operation and the handler do, after at most \<open>N\<close> calls of the operation (by a return
  when the handler never panics); each iteration that goes on takes the counter from
  \<open>N > 0\<close> to \<open>N - 1 \<ge> 0\<close>.
\<close>

theorem Retry_bounded:
  assumes "0 \<le> N"
  shows "(\<exists>res s' tr. Retry panicnil f N onError period s = Some (res, s', tr) \<and>
            length (attempts tr) \<le> nat N \<and>
            (never_panics onError \<longrightarrow> res = Returns ())) \<and>
         (0 < N \<and> iteration panicnil f onError p N s0 tr0 = Inl (n', s1, tr1) \<longrightarrow>
            n' = N - 1 \<and> 0 \<le> n' \<and> n' < N)"
proof -
  from loop_bounded [of panicnil f onError "sleep_period period" "nat N" s "[]"] assms
  obtain res s' tr where R: "Retry panicnil f N onError period s = Some (res, s', tr)"
    and A: "length (attempts tr) \<le> nat N"
    by (auto simp: Retry_def)
  from R have "loop panicnil f onError (sleep_period period) N s [] = Some (res, s', tr)"
    by (simp add: Retry_def)
  from loop_run [OF this] have "never_panics onError \<longrightarrow> res = Returns ()" by auto
  moreover have "n' = N - 1 \<and> 0 \<le> n' \<and> n' < N"
    if "0 < N \<and> iteration panicnil f onError p N s0 tr0 = Inl (n', s1, tr1)"
    using that by (cases rule: iteration_cases [of panicnil f s0 onError p N tr0]) auto
  ultimately show ?thesis using R A by blast
qed

theorem Retry_bounded_witness:
  "(0::int) \<le> 3 \<and>
   (\<exists>res s' tr. Retry True panics_X 3 (Some count_error) [] 0 = Some (res, s', tr) \<and>
      length (attempts tr) \<le> 3 \<and> res = Returns ()) \<and>
   never_panics (Some count_error) \<and>
   iteration True panics_X (Some count_error) 1000 3 0 [] =
     Inl (2, 2, [Attempt (Some (Recovered \<lparr>e = Val ''X''\<rparr>)),
                 OnError (Recovered \<lparr>e = Val ''X''\<rparr>), Sleep 1000]) \<and>
   (2::int) = 3 - 1"
proof -
  have I: "iteration True panics_X (Some count_error) 1000 3 0 [] =
     Inl (2, 2, [Attempt (Some (Recovered \<lparr>e = Val ''X''\<rparr>)),
                 OnError (Recovered \<lparr>e = Val ''X''\<rparr>), Sleep 1000])"
    by (simp add: iteration_def call_onError_def panics_X_def count_error_def Try_defs)
  have n: "(0::int) \<le> 3" by simp
  have h: "never_panics (Some count_error)"
    by (simp add: never_panics_def count_error_def)
  from Retry_bounded [OF n, where panicnil = True and f = panics_X
      and onError = "Some count_error" and period = "[]" and s = 0 and p = 1000
      and ?s0.0 = 0 and ?tr0.0 = "[]" and n' = 2 and ?s1.0 = 2
      and ?tr1.0 = "[Attempt (Some (Recovered \<lparr>e = Val ''X''\<rparr>)),
                 OnError (Recovered \<lparr>e = Val ''X''\<rparr>), Sleep 1000]"] I h
  show ?thesis by simp
qed

end
